theory Spec2Isabelle
  imports Complex_Main "HOL-Library.Word"
begin

section \<open>Sockets\<close>

text \<open>
  Both programs talk over one TCP socket. A socket is modelled by what its owner can
  observe of it: the script of what successive reads will find (\<open>inbound\<close>, where the
  empty script means that the peer has closed, so that every further read returns zero
  bytes), the payloads of the \<open>sendall\<close> calls that succeeded (\<open>sent\<close>, oldest first), the
  outcome of the coming \<open>sendall\<close> calls (\<open>send_faults\<close>: \<open>True\<close> raises, the empty script
  never raises), whether the socket is blocking (\<open>setblocking\<close>), and the number of
  \<open>recv\<close> calls made so far.
\<close>

type_synonym byte = "8 word"

datatype error = ConnectionResetError | OSError | BlockingIOError | BrokenPipeError | TypeError

datatype 'a event = Data "'a list" | NotReady | Reset | Fault

record ('i, 'o) socket =
  blocking :: bool
  inbound :: "'i event list"
  sent :: "'o list list"
  send_faults :: "bool list"
  recv_calls :: nat

text \<open>
  \<open>recv(n)\<close> on the script: at most \<open>n\<close> elements of the data at its head (what is left of
  that data stays at the head), zero bytes once the peer has closed. A blocking socket
  waits where nothing is ready; a non-blocking one raises.
\<close>

fun recv_from :: "bool \<Rightarrow> nat \<Rightarrow> 'i event list \<Rightarrow> (error + 'i list) \<times> 'i event list" where
  "recv_from b n [] = (Inr [], [])"
| "recv_from b n (Data d # es) =
     (Inr (take n d), if length d \<le> n then es else Data (drop n d) # es)"
| "recv_from b n (NotReady # es) =
     (if b then recv_from b n es else (Inl BlockingIOError, es))"
| "recv_from b n (Reset # es) = (Inl ConnectionResetError, es)"
| "recv_from b n (Fault # es) = (Inl OSError, es)"

definition recv :: "('i, 'o) socket \<Rightarrow> nat \<Rightarrow> (error + 'i list) \<times> ('i, 'o) socket" where
  "recv s n =
     (case recv_from (blocking s) n (inbound s) of
        (r, es) \<Rightarrow> (r, s\<lparr>inbound := es, recv_calls := Suc (recv_calls s)\<rparr>))"

definition sendall :: "('i, 'o) socket \<Rightarrow> 'o list \<Rightarrow> error option \<times> ('i, 'o) socket" where
  "sendall s payload =
     (case send_faults s of
        [] \<Rightarrow> (None, s\<lparr>sent := sent s @ [payload]\<rparr>)
      | False # fs \<Rightarrow> (None, s\<lparr>sent := sent s @ [payload], send_faults := fs\<rparr>)
      | True # fs \<Rightarrow> (Some BrokenPipeError, s\<lparr>send_faults := fs\<rparr>))"

text \<open>\<open>select.select([sock], [], [], 0)\<close>: a poll that finds nothing ready uses up that moment.\<close>

definition select :: "('i, 'o) socket \<Rightarrow> bool \<times> ('i, 'o) socket" where
  "select s =
     (case inbound s of
        NotReady # es \<Rightarrow> (False, s\<lparr>inbound := es\<rparr>)
      | _ \<Rightarrow> (True, s))"

text \<open>The size of a script: every read that returns data, and every event read, makes it smaller.\<close>

fun event_size :: "'i event \<Rightarrow> nat" where
  "event_size (Data d) = Suc (length d)"
| "event_size _ = 1"

definition script_size :: "'i event list \<Rightarrow> nat" where
  "script_size es = sum_list (map event_size es)"

section \<open>The server: \<open>whisper_online_server.py\<close>\<close>

subsection \<open>Connection\<close>

definition SAMPLING_RATE :: nat where
  "SAMPLING_RATE = 16000"

definition PACKET_SIZE :: nat where
  "PACKET_SIZE = 2 * SAMPLING_RATE * 2"

record connection =
  conn :: "(byte, char) socket"
  last_line :: string

text \<open>
  The loop of \<open>Connection.non_blocking_receive_audio\<close>, with its three variables. It ends
  since every turn that does not return makes the buffer longer. Both exception handlers
  return \<open>None\<close>.
\<close>

function receive_loop ::
  "(byte, char) socket \<Rightarrow> byte list \<Rightarrow> nat \<Rightarrow> byte list option \<times> (byte, char) socket" where
  "receive_loop s buffer bytes_needed =
     (if length buffer < PACKET_SIZE then
        (case recv s bytes_needed of
           (Inl e, s') \<Rightarrow> (None, s')
         | (Inr fragment, s') \<Rightarrow>
             if fragment = [] then
               (if buffer = [] then (None, s') else (Some buffer, s'))
             else receive_loop s' (buffer @ fragment) (PACKET_SIZE - length (buffer @ fragment)))
      else (Some buffer, s))"
  by pat_completeness auto
termination
proof (relation "measure (\<lambda>(s, buffer, bytes_needed). PACKET_SIZE - length buffer)")
  fix s :: "(byte, char) socket" and buffer fragment :: "byte list" and bytes_needed :: nat
    and s' :: "(byte, char) socket"
  assume "length buffer < PACKET_SIZE" and "fragment \<noteq> []"
  then have "PACKET_SIZE - length (buffer @ fragment) < PACKET_SIZE - length buffer"
    by (cases fragment) auto
  then show "((s', buffer @ fragment, PACKET_SIZE - length (buffer @ fragment)),
              (s, buffer, bytes_needed))
             \<in> measure (\<lambda>(s, buffer, bytes_needed). PACKET_SIZE - length buffer)"
    by simp
qed simp

declare receive_loop.simps [simp del]

definition non_blocking_receive_audio :: "connection \<Rightarrow> byte list option \<times> connection" where
  "non_blocking_receive_audio c =
     (case receive_loop (conn c) [] PACKET_SIZE of
        (r, s') \<Rightarrow> (r, c\<lparr>conn := s'\<rparr>))"


lemma PACKET_SIZE_pos: "0 < PACKET_SIZE"
  by (simp add: PACKET_SIZE_def SAMPLING_RATE_def)

lemma recv_from_size: "script_size (snd (recv_from b n es)) \<le> script_size es"
  by (induction b n es rule: recv_from.induct) (auto simp: script_size_def)

lemma recv_from_data_size:
  "recv_from b n es = (Inr frag, es') \<Longrightarrow> frag \<noteq> [] \<Longrightarrow> script_size es' < script_size es"
proof (induction b n es rule: recv_from.induct)
  case (2 b n d es)
  then show ?case by (cases "n = 0") (auto simp: script_size_def split: if_splits)
next
  case (3 b n es)
  then show ?case by (auto simp: script_size_def split: if_splits)
qed (auto simp: script_size_def)

lemma recv_size: "recv s n = (r, s') \<Longrightarrow> script_size (inbound s') \<le> script_size (inbound s)"
  using recv_from_size [of "blocking s" n "inbound s"]
  by (auto simp: recv_def split: prod.splits)

lemma recv_data_size:
  "recv s n = (Inr frag, s') \<Longrightarrow> frag \<noteq> [] \<Longrightarrow> script_size (inbound s') < script_size (inbound s)"
  using recv_from_data_size [of "blocking s" n "inbound s" frag]
  by (auto simp: recv_def split: prod.splits)

lemma receive_loop_size:
  "receive_loop s buffer n = (r, s') \<Longrightarrow> script_size (inbound s') \<le> script_size (inbound s)"
proof (induction s buffer n arbitrary: r s' rule: receive_loop.induct)
  case (1 s buffer n)
  show ?case
  proof (cases "length buffer < PACKET_SIZE")
    case False
    with "1.prems" show ?thesis by (simp add: receive_loop.simps)
  next
    case True
    obtain x s1 where rc: "recv s n = (x, s1)" by (cases "recv s n")
    have le1: "script_size (inbound s1) \<le> script_size (inbound s)"
      using rc by (rule recv_size)
    show ?thesis
    proof (cases x)
      case (Inl e)
      with "1.prems" True rc le1 show ?thesis by (simp add: receive_loop.simps)
    next
      case (Inr fragment)
      show ?thesis
      proof (cases "fragment = []")
        case True
        with "1.prems" \<open>length buffer < PACKET_SIZE\<close> rc Inr le1 show ?thesis
          by (auto simp: receive_loop.simps split: if_splits)
      next
        case False
        from "1.prems" \<open>length buffer < PACKET_SIZE\<close> rc Inr False
        have "receive_loop s1 (buffer @ fragment) (PACKET_SIZE - length (buffer @ fragment)) = (r, s')"
          by (simp add: receive_loop.simps)
        from "1.IH" [OF \<open>length buffer < PACKET_SIZE\<close> rc [symmetric] Inr False this] le1
        show ?thesis by simp
      qed
    qed
  qed
qed

lemma receive_loop_Some_size:
  assumes "receive_loop s [] n = (Some f, s')"
  shows "script_size (inbound s') < script_size (inbound s)"
proof -
  obtain x s1 where rc: "recv s n = (x, s1)" by (cases "recv s n")
  show ?thesis
  proof (cases x)
    case (Inl e)
    with assms rc show ?thesis by (simp add: receive_loop.simps PACKET_SIZE_pos)
  next
    case (Inr fragment)
    with assms rc have ne: "fragment \<noteq> []"
      by (auto simp: receive_loop.simps PACKET_SIZE_pos)
    with assms rc Inr
    have "receive_loop s1 ([] @ fragment) (PACKET_SIZE - length ([] @ fragment)) = (Some f, s')"
      by (simp add: receive_loop.simps [of s "[]"] PACKET_SIZE_pos)
    then have "script_size (inbound s') \<le> script_size (inbound s1)"
      by (rule receive_loop_size)
    moreover have "script_size (inbound s1) < script_size (inbound s)"
      using rc Inr ne by (auto intro: recv_data_size)
    ultimately show ?thesis by simp
  qed
qed

lemma non_blocking_receive_audio_size:
  "non_blocking_receive_audio c = (Some f, c') \<Longrightarrow>
   script_size (inbound (conn c')) < script_size (inbound (conn c))"
  by (auto simp: non_blocking_receive_audio_def split: prod.splits dest: receive_loop_Some_size)

text \<open>
  The frames that successive calls return on one connection, up to the first call that
  returns \<open>None\<close>.
\<close>

function receive_frames :: "connection \<Rightarrow> byte list list" where
  "receive_frames c =
     (case non_blocking_receive_audio c of
        (None, c') \<Rightarrow> []
      | (Some frame, c') \<Rightarrow> frame # receive_frames c')"
  by pat_completeness auto
termination
  by (relation "measure (\<lambda>c. script_size (inbound (conn c)))")
     (auto dest: non_blocking_receive_audio_size [OF sym])

declare receive_frames.simps [simp del]


subsection \<open>External collaborators of the server\<close>

text \<open>
  The audio parser (\<open>soundfile\<close> and \<open>librosa\<close>) reads raw little-endian signed 16-bit mono
  PCM: one sample for every complete pair of bytes, scaled to the interval from -1 to 1.
  Python's floats are modelled by rational numbers throughout: the arithmetic of the
  model is exact.
\<close>

type_synonym sample = rat

fun pcm16_decode :: "byte list \<Rightarrow> sample list" where
  "pcm16_decode (lo # hi # bs) =
     of_int (sint (word_cat hi lo :: 16 word)) / 32768 # pcm16_decode bs"
| "pcm16_decode bs = []"

text \<open>
  The recogniser is a parameter of the model: a state of any type \<open>'r\<close> and its three
  operations. What \<open>process_iter\<close> returns is a triple \<open>(beg, end, text)\<close> whose first two
  components may be \<open>None\<close>.
\<close>

type_synonym asr_output = "rat option \<times> rat option \<times> string"

record 'r recognizer =
  asr_init :: "'r \<Rightarrow> 'r"
  insert_audio_chunk :: "sample list \<Rightarrow> 'r \<Rightarrow> 'r"
  process_iter :: "'r \<Rightarrow> asr_output \<times> 'r"

text \<open>
  The format \<open>%1.0f\<close> of a number: no decimals, rounded half to even, the sign kept.
\<close>

definition round_half_even :: "rat \<Rightarrow> int" where
  "round_half_even x =
     (let f = \<lfloor>x\<rfloor>; d = x - of_int f
      in if d < 1 / 2 then f else if 1 / 2 < d then f + 1 else if even f then f else f + 1)"

fun decimal :: "nat \<Rightarrow> string" where
  "decimal n =
     (if n < 10 then [''0123456789'' ! n]
      else decimal (n div 10) @ [''0123456789'' ! (n mod 10)])"

declare decimal.simps [simp del]

definition fmt_1_0f :: "rat \<Rightarrow> string" where
  "fmt_1_0f x =
     (if x < 0 then ''-'' @ decimal (nat (- round_half_even x))
      else decimal (nat (round_half_even x)))"

text \<open>The expression \<open>"%1.0f %1.0f %s" % (beg, end, text)\<close>.\<close>

definition interval_line :: "rat \<Rightarrow> rat \<Rightarrow> string \<Rightarrow> string" where
  "interval_line beg end' text = fmt_1_0f beg @ '' '' @ fmt_1_0f end' @ '' '' @ text"

definition newline :: char where
  "newline = CHR 0x0A"

text \<open>
  Modelled from the spec: \<open>line_packet.send_one_line\<close> is not among the sources. The
  spec's Frame Codec says that each outbound message is text terminated by a single
  newline, written to the socket as one message.
\<close>

definition send_one_line :: "(byte, char) socket \<Rightarrow> string \<Rightarrow> error option \<times> (byte, char) socket" where
  "send_one_line s line = sendall s (line @ [newline])"

definition send :: "connection \<Rightarrow> string \<Rightarrow> error option \<times> connection" where
  "send c line =
     (case send_one_line (conn c) line of
        (Some e, s') \<Rightarrow> (Some e, c\<lparr>conn := s'\<rparr>)
      | (None, s') \<Rightarrow> (None, c\<lparr>conn := s', last_line := line\<rparr>))"

subsection \<open>ServerProcessor\<close>

record 'r server_processor =
  connection :: connection
  online_asr_proc :: 'r
  min_chunk :: rat
  last_end :: "rat option"
  is_first :: bool
  chunk_num :: nat

definition receive_audio_chunk ::
  "'r server_processor \<Rightarrow> sample list option \<times> 'r server_processor" where
  "receive_audio_chunk p =
     (let out = [];
          minlimit = min_chunk p * of_nat SAMPLING_RATE;
          (raw_bytes, c) = non_blocking_receive_audio (connection p);
          p = p\<lparr>connection := c\<rparr>
      in case raw_bytes of
           None \<Rightarrow> (None, p)
         | Some raw \<Rightarrow>
             if raw = [] then (None, p)
             else
               let audio = pcm16_decode raw;
                   out = out @ [audio]
               in if out = [] then (None, p)
                  else
                    let conc = concat out
                    in if is_first p \<and> of_nat (length conc) < minlimit then (None, p)
                       else (Some (concat out), p\<lparr>is_first := False, chunk_num := chunk_num p + 1\<rparr>))"

text \<open>
  \<open>format_output_transcript\<close> in its two steps. First the interval to print is computed
  from the output of the recogniser, and \<open>last_end\<close> is set: \<open>beg\<close> becomes the maximum of
  itself and the previous \<open>last_end\<close>, \<open>end\<close> is taken as it is. Multiplying \<open>None\<close> by 1000
  raises \<open>TypeError\<close>. Then the interval, or the marker of no text, is formatted.
\<close>

datatype transcript = Interval rat rat string | NoInput

definition clamp_output ::
  "'r server_processor \<Rightarrow> asr_output \<Rightarrow> (error + transcript) \<times> 'r server_processor" where
  "clamp_output p o' =
     (case o' of
        (Some b, None, text) \<Rightarrow> (Inl TypeError, p)
      | (Some b, Some e, text) \<Rightarrow>
          let beg = b * 1000;
              end' = e * 1000;
              beg = (case last_end p of None \<Rightarrow> beg | Some l \<Rightarrow> max beg l)
          in (Inr (Interval beg end' text), p\<lparr>last_end := Some end'\<rparr>)
      | (None, e, text) \<Rightarrow> (Inr NoInput, p))"

fun render :: "transcript \<Rightarrow> string" where
  "render (Interval beg end' text) = interval_line beg end' text"
| "render NoInput = ''No input''"

definition format_output_transcript ::
  "'r server_processor \<Rightarrow> asr_output \<Rightarrow> (error + string) \<times> 'r server_processor" where
  "format_output_transcript p o' =
     (case clamp_output p o' of
        (Inl e, p) \<Rightarrow> (Inl e, p)
      | (Inr t, p) \<Rightarrow> (Inr (render t), p))"

text \<open>
  The intervals that one session formats for the successive outputs of the recogniser,
  as \<open>process\<close> passes them on; an exception ends the session.
\<close>

fun intervals_emitted :: "'r server_processor \<Rightarrow> asr_output list \<Rightarrow> (rat \<times> rat) list" where
  "intervals_emitted p [] = []"
| "intervals_emitted p (o' # os) =
     (case clamp_output p o' of
        (Inl e, p) \<Rightarrow> []
      | (Inr (Interval beg end' text), p) \<Rightarrow> (beg, end') # intervals_emitted p os
      | (Inr NoInput, p) \<Rightarrow> intervals_emitted p os)"

definition send_result :: "'r server_processor \<Rightarrow> asr_output \<Rightarrow> error option \<times> 'r server_processor" where
  "send_result p o' =
     (case format_output_transcript p o' of
        (Inl e, p) \<Rightarrow> (Some e, p)
      | (Inr msg, p) \<Rightarrow>
          let msg = map (\<lambda>ch. if ch = newline then CHR '' '' else ch) msg
          in case send (connection p) msg of
               (r, c) \<Rightarrow> (r, p\<lparr>connection := c\<rparr>))"


lemma receive_audio_chunk_size:
  "receive_audio_chunk p = (Some a, p') \<Longrightarrow>
   script_size (inbound (conn (connection p'))) < script_size (inbound (conn (connection p)))"
  by (auto simp: receive_audio_chunk_def Let_def split: prod.splits option.splits if_splits
           dest: non_blocking_receive_audio_size)

lemma sendall_inbound: "sendall s x = (r, s') \<Longrightarrow> inbound s' = inbound s"
  by (auto simp: sendall_def split: list.splits bool.splits)

lemma send_inbound: "send c line = (r, c') \<Longrightarrow> inbound (conn c') = inbound (conn c)"
  by (auto simp: send_def send_one_line_def split: prod.splits option.splits dest: sendall_inbound)

lemma clamp_output_connection:
  "clamp_output p o' = (r, p') \<Longrightarrow> connection p' = connection p"
  by (auto simp: clamp_output_def Let_def split: prod.splits option.splits)

lemma format_output_transcript_connection:
  "format_output_transcript p o' = (r, p') \<Longrightarrow> connection p' = connection p"
  by (auto simp: format_output_transcript_def split: prod.splits sum.splits
           dest: clamp_output_connection)

lemma send_result_inbound:
  assumes "send_result p o' = (r, p')"
  shows "inbound (conn (connection p')) = inbound (conn (connection p))"
proof (cases "format_output_transcript p o'")
  case (Pair x p1)
  then have c: "connection p1 = connection p"
    by (rule format_output_transcript_connection)
  show ?thesis
  proof (cases x)
    case (Inl e)
    with assms Pair c show ?thesis by (auto simp: send_result_def)
  next
    case (Inr msg)
    obtain r2 c2
      where sd: "send (connection p1) (map (\<lambda>ch. if ch = newline then CHR '' '' else ch) msg) = (r2, c2)"
      by (cases "send (connection p1) (map (\<lambda>ch. if ch = newline then CHR '' '' else ch) msg)")
    from sd have "inbound (conn c2) = inbound (conn (connection p1))"
      by (rule send_inbound)
    with assms Pair Inr sd c show ?thesis by (auto simp: send_result_def Let_def)
  qed
qed

text \<open>
  \<open>process\<close> handles one client connection. The loop ends when no chunk is received or
  when sending raises; each turn that goes on has read from the socket. The recogniser
  \<open>online\<close> that \<open>process\<close> calls is the object stored in \<open>online_asr_proc\<close>.
\<close>

function process_loop :: "'r recognizer \<Rightarrow> 'r server_processor \<Rightarrow> 'r server_processor" where
  "process_loop online p =
     (case receive_audio_chunk p of
        (None, p) \<Rightarrow> p
      | (Some a, p) \<Rightarrow>
          let p = p\<lparr>online_asr_proc := insert_audio_chunk online a (online_asr_proc p)\<rparr>
          in (case process_iter online (online_asr_proc p) of
                (o', r) \<Rightarrow>
                  let p = p\<lparr>online_asr_proc := r\<rparr>
                  in (case send_result p o' of
                        (Some e, p) \<Rightarrow> p
                      | (None, p) \<Rightarrow> process_loop online p)))"
  by pat_completeness auto
termination
  apply (relation "measure (\<lambda>(online, p). script_size (inbound (conn (connection p))))")
   apply simp
  apply (auto dest!: receive_audio_chunk_size [OF sym] send_result_inbound [OF sym])
  done

declare process_loop.simps [simp del]

definition process :: "'r recognizer \<Rightarrow> 'r server_processor \<Rightarrow> 'r server_processor" where
  "process online p = process_loop online (p\<lparr>online_asr_proc := asr_init online (online_asr_proc p)\<rparr>)"

text \<open>The constructors, and the server loop's handling of one accepted connection.\<close>

definition Connection :: "(byte, char) socket \<Rightarrow> connection" where
  "Connection s = \<lparr>conn = s\<lparr>blocking := True\<rparr>, last_line = []\<rparr>"

definition ServerProcessor :: "connection \<Rightarrow> 'r \<Rightarrow> rat \<Rightarrow> 'r server_processor" where
  "ServerProcessor c online_asr min_chunk_size =
     \<lparr>connection = c, online_asr_proc = online_asr, min_chunk = min_chunk_size,
      last_end = None, is_first = True, chunk_num = 0\<rparr>"

definition serve :: "'r recognizer \<Rightarrow> 'r \<Rightarrow> rat \<Rightarrow> (byte, char) socket \<Rightarrow> 'r server_processor" where
  "serve online r min_chunk_size s = process online (ServerProcessor (Connection s) r min_chunk_size)"

section \<open>The client: \<open>generate_raw_realtime.py\<close>\<close>

text \<open>
  What the client prints about responses: the chunk's number, when it was sent, when the
  response was received, and the response (the processing time printed is the difference
  of the two times); an error caught while receiving; a chunk left without response, with
  the time elapsed since it was sent.
\<close>

datatype report =
    Response nat rat rat string
  | ReceiveError error
  | Unanswered nat rat

text \<open>
  The state of \<open>send_audio_in_chunks\<close>: its socket, the queue of \<open>(chunk_count, send_time)\<close>
  pairs, the output of the transcoder still to be read, its counters, and what it has
  printed. The wall clock is a field of the state: \<open>time.time()\<close> reads it and only
  \<open>time.sleep\<close> moves it. The text received is modelled after decoding: the script of the
  socket holds characters.
\<close>

record client =
  sock :: "(char, byte) socket"
  chunk_timestamps :: "(nat \<times> rat) list"
  clock :: rat
  printed :: "report list"
  stdout :: "byte list"
  total_bytes_sent :: nat
  chunk_count :: nat

text \<open>
  \<open>str.strip()\<close> removes the white space at both ends, and \<open>str.split('\n')\<close> cuts at every
  newline. White space is what \<open>str.isspace\<close> accepts among the characters below 256.
\<close>

definition isspace :: "char \<Rightarrow> bool" where
  "isspace ch =
     (let n = (of_char ch :: nat)
      in (9 \<le> n \<and> n \<le> 13) \<or> (28 \<le> n \<and> n \<le> 32) \<or> n = 133 \<or> n = 160)"

definition str_strip :: "string \<Rightarrow> string" where
  "str_strip s = rev (dropWhile isspace (rev (dropWhile isspace s)))"

fun str_split :: "char \<Rightarrow> string \<Rightarrow> string list" where
  "str_split sep [] = [[]]"
| "str_split sep (ch # s) =
     (if ch = sep then [] # str_split sep s
      else (case str_split sep s of
              w # ws \<Rightarrow> (ch # w) # ws
            | [] \<Rightarrow> [[ch]]))"

text \<open>The loop over the messages of one response.\<close>

fun correlate :: "string list \<Rightarrow> client \<Rightarrow> client" where
  "correlate [] c = c"
| "correlate (message # messages) c =
     (if message \<noteq> [] \<and> chunk_timestamps c \<noteq> [] then
        (case hd (chunk_timestamps c) of
           (chunk_no, send_time) \<Rightarrow>
             let c = c\<lparr>chunk_timestamps := tl (chunk_timestamps c)\<rparr>;
                 receive_time = clock c
             in correlate messages
                  (c\<lparr>printed := printed c @ [Response chunk_no send_time receive_time message]\<rparr>))
      else correlate messages c)"

definition try_receive_response :: "client \<Rightarrow> client" where
  "try_receive_response c =
     (if chunk_timestamps c = [] then c
      else
        (case select (sock c) of
           (readable, s) \<Rightarrow>
             if readable then
               (case recv s 4096 of
                  (Inl e, s) \<Rightarrow> c\<lparr>sock := s, printed := printed c @ [ReceiveError e]\<rparr>
                | (Inr response, s) \<Rightarrow>
                    if response \<noteq> [] then
                      (let messages = str_split newline (str_strip response)
                       in correlate messages (c\<lparr>sock := s\<rparr>))
                    else c\<lparr>sock := s\<rparr>)
             else c\<lparr>sock := s\<rparr>))"

definition sleep :: "rat \<Rightarrow> client \<Rightarrow> client" where
  "sleep d c = c\<lparr>clock := clock c + d\<rparr>"

lemma correlate_clock: "clock (correlate ms c) = clock c"
  by (induction ms c rule: correlate.induct) (auto simp: Let_def split: prod.splits)

lemma correlate_stdout: "stdout (correlate ms c) = stdout c"
  by (induction ms c rule: correlate.induct) (auto simp: Let_def split: prod.splits)

lemma try_receive_response_clock: "clock (try_receive_response c) = clock c"
  by (auto simp: try_receive_response_def correlate_clock Let_def split: prod.splits sum.splits)

lemma try_receive_response_stdout: "stdout (try_receive_response c) = stdout c"
  by (auto simp: try_receive_response_def correlate_stdout Let_def split: prod.splits sum.splits)

text \<open>The number of sleeps of a tenth of a second that fit before a deadline.\<close>

definition ticks_left :: "rat \<Rightarrow> rat \<Rightarrow> nat" where
  "ticks_left end_time t = nat \<lceil>(end_time - t) * 10\<rceil>"

lemma ticks_left_sleep:
  assumes "t < e"
  shows "ticks_left e (t + 1 / 10) < ticks_left e t"
proof -
  define x where "x = (e - t) * 10"
  have eq: "(e - (t + 1 / 10)) * 10 = x - 1"
    by (simp add: x_def algebra_simps)
  have "0 < x" using assms by (simp add: x_def)
  then have "0 < \<lceil>x\<rceil>" by simp
  moreover have "\<lceil>x - 1\<rceil> = \<lceil>x\<rceil> - 1" by simp
  ultimately have "nat \<lceil>x - 1\<rceil> < nat \<lceil>x\<rceil>" by simp
  then show ?thesis
    unfolding ticks_left_def eq by (simp only: x_def)
qed

function wait_loop :: "rat \<Rightarrow> client \<Rightarrow> client" where
  "wait_loop end_time c =
     (if clock c < end_time \<and> chunk_timestamps c \<noteq> [] then
        wait_loop end_time (sleep (1 / 10) (try_receive_response c))
      else c)"
  by pat_completeness auto
termination
  by (relation "measure (\<lambda>(end_time, c). ticks_left end_time (clock c))")
     (auto simp: sleep_def try_receive_response_clock ticks_left_sleep)

declare wait_loop.simps [simp del]

definition wait_for_final_responses :: "client \<Rightarrow> rat \<Rightarrow> client" where
  "wait_for_final_responses c timeout =
     (if chunk_timestamps c = [] then c
      else
        let end_time = clock c + timeout
        in wait_loop end_time c)"

text \<open>
  \<open>check_for_additional_responses\<close>, which nothing calls: it takes each read for one
  response, and leaves its loop when a read returns zero bytes.
\<close>

function check_for_additional_responses :: "client \<Rightarrow> client" where
  "check_for_additional_responses c =
     (if chunk_timestamps c \<noteq> [] then
        (case select (sock c) of
           (readable, s) \<Rightarrow>
             if \<not> readable then c\<lparr>sock := s\<rparr>
             else
               (case recv s 4096 of
                  (Inl e, s) \<Rightarrow> c\<lparr>sock := s, printed := printed c @ [ReceiveError e]\<rparr>
                | (Inr response, s) \<Rightarrow>
                    if response = [] then c\<lparr>sock := s\<rparr>
                    else
                      (case hd (chunk_timestamps c) of
                         (chunk_no, send_time) \<Rightarrow>
                           check_for_additional_responses
                             (c\<lparr>sock := s, chunk_timestamps := tl (chunk_timestamps c),
                                printed := printed c @ [Response chunk_no send_time (clock c) response]\<rparr>))))
      else c)"
  by pat_completeness auto
termination
  by (relation "measure (\<lambda>c. length (chunk_timestamps c))") auto

declare check_for_additional_responses.simps [simp del]

text \<open>
  \<open>int(x)\<close> of a number truncates towards zero; \<open>read(n)\<close> on the pipe returns \<open>n\<close> bytes,
  fewer only at the end of the stream, and everything that is left when \<open>n\<close> is negative.
\<close>

definition truncate :: "rat \<Rightarrow> int" where
  "truncate x = (if 0 \<le> x then \<lfloor>x\<rfloor> else \<lceil>x\<rceil>)"

definition read :: "int \<Rightarrow> byte list \<Rightarrow> byte list \<times> byte list" where
  "read n bs = (if n < 0 then (bs, []) else (take (nat n) bs, drop (nat n) bs))"

text \<open>The padding of a short chunk (the body of the \<open>if\<close> in the send loop).\<close>

definition pad_chunk :: "int \<Rightarrow> byte list \<Rightarrow> client \<Rightarrow> error + client" where
  "pad_chunk chunk_size data c =
     (let silence_bytes_needed = chunk_size - int (length data);
          silence_padding = replicate (nat silence_bytes_needed) (0 :: byte)
      in case sendall (sock c) silence_padding of
           (Some e, s) \<Rightarrow> Inl e
         | (None, s) \<Rightarrow>
             Inr (c\<lparr>sock := s, total_bytes_sent := total_bytes_sent c + nat silence_bytes_needed\<rparr>))"

text \<open>The pacing loop: polling for responses during the time of one chunk.\<close>

function pacing_loop :: "rat \<Rightarrow> rat \<Rightarrow> client \<Rightarrow> client" where
  "pacing_loop start_time chunk_seconds c =
     (if clock c - start_time < chunk_seconds then
        pacing_loop start_time chunk_seconds (sleep (1 / 10) (try_receive_response c))
      else c)"
  by pat_completeness auto
termination
  by (relation "measure (\<lambda>(start_time, chunk_seconds, c). ticks_left (start_time + chunk_seconds) (clock c))")
     (auto simp: sleep_def try_receive_response_clock ticks_left_sleep)

declare pacing_loop.simps [simp del]

lemma pacing_loop_stdout: "stdout (pacing_loop t0 d c) = stdout c"
proof (induction t0 d c rule: pacing_loop.induct)
  case (1 t0 d c)
  then show ?case
    by (subst pacing_loop.simps) (simp add: sleep_def try_receive_response_stdout)
qed

lemma pad_chunk_stdout: "pad_chunk n data c = Inr c' \<Longrightarrow> stdout c' = stdout c"
  by (auto simp: pad_chunk_def Let_def split: prod.splits option.splits)

lemma read_shorter: "read n bs = (data, rest) \<Longrightarrow> data \<noteq> [] \<Longrightarrow> length rest < length bs"
  by (cases "nat n") (auto simp: read_def split: if_splits)

text \<open>
  The send loop of \<open>send_audio_in_chunks\<close>. An exception raised by \<open>sendall\<close> leaves the
  loop for the handler of the function.
\<close>

function send_loop :: "rat \<Rightarrow> client \<Rightarrow> error + client" where
  "send_loop chunk_seconds c =
     (let bytes_per_second = 16000 * 2;
          chunk_size = truncate (of_nat bytes_per_second * chunk_seconds)
      in case read chunk_size (stdout c) of
           (data, rest) \<Rightarrow>
             if data = [] then Inr (c\<lparr>stdout := rest\<rparr>)
             else
               let c = c\<lparr>stdout := rest\<rparr>;
                   send_time = clock c
               in (case sendall (sock c) data of
                     (Some e, s) \<Rightarrow> Inl e
                   | (None, s) \<Rightarrow>
                       let c = c\<lparr>sock := s, chunk_count := chunk_count c + 1\<rparr>;
                           c = c\<lparr>chunk_timestamps := chunk_timestamps c @ [(chunk_count c, send_time)]\<rparr>;
                           c = c\<lparr>total_bytes_sent := total_bytes_sent c + length data\<rparr>;
                           chunk_duration = of_nat (length data) / of_nat bytes_per_second
                       in (case (if int (length data) < chunk_size \<and> chunk_duration < chunk_seconds
                                 then pad_chunk chunk_size data c else Inr c) of
                             Inl e \<Rightarrow> Inl e
                           | Inr c \<Rightarrow>
                               let c = try_receive_response c;
                                   c = (if stdout c \<noteq> [] then pacing_loop (clock c) chunk_seconds c else c)
                               in send_loop chunk_seconds c)))"
  by pat_completeness auto
termination
  apply (relation "measure (\<lambda>(chunk_seconds, c). length (stdout c))")
   apply simp
  apply (auto simp: pacing_loop_stdout try_receive_response_stdout
              dest!: read_shorter [OF sym] pad_chunk_stdout split: if_splits)
  done

declare send_loop.simps [simp del]

text \<open>
  \<open>send_audio_in_chunks\<close> from the point where it is connected: \<open>pcm\<close> is all that the
  transcoder will write, \<open>s\<close> the connected socket and \<open>start\<close> the time on the clock. The
  query of the duration, the start of the transcoder and the connection itself are outside
  the model. After the send loop the function waits for the last responses and reports
  the chunks that got none; an exception in the send loop goes to its handler instead.
\<close>

definition send_audio_in_chunks ::
  "byte list \<Rightarrow> (char, byte) socket \<Rightarrow> rat \<Rightarrow> rat \<Rightarrow> error + client" where
  "send_audio_in_chunks pcm s start chunk_seconds =
     (let c = \<lparr>sock = s\<lparr>blocking := False\<rparr>, chunk_timestamps = [], clock = start,
                printed = [], stdout = pcm, total_bytes_sent = 0, chunk_count = 0\<rparr>
      in case send_loop chunk_seconds c of
           Inl e \<Rightarrow> Inl e
         | Inr c \<Rightarrow>
             let c = wait_for_final_responses c 500000000
             in Inr (c\<lparr>printed := printed c @
                       map (\<lambda>(chunk_no, send_time). Unanswered chunk_no (clock c - send_time))
                         (chunk_timestamps c)\<rparr>))"

section \<open>The intervals of the server\<close>

lemma clamp_output_interval:
  "clamp_output p (Some b, Some e, text) =
     (Inr (Interval (case last_end p of None \<Rightarrow> b * 1000 | Some l \<Rightarrow> max (b * 1000) l) (e * 1000) text),
      p\<lparr>last_end := Some (e * 1000)\<rparr>)"
  by (simp add: clamp_output_def Let_def)

lemma clamp_output_sentinel: "clamp_output p (None, e, text) = (Inr NoInput, p)"
  by (simp add: clamp_output_def)

lemma intervals_emitted_adjacent:
  "(\<forall>l. last_end p = Some l \<longrightarrow> (\<forall>x \<in> set (take 1 (intervals_emitted p os)). l \<le> fst x)) \<and>
   (\<forall>i. Suc i < length (intervals_emitted p os) \<longrightarrow>
      snd (intervals_emitted p os ! i) \<le> fst (intervals_emitted p os ! Suc i))"
proof (induction os arbitrary: p)
  case Nil
  show ?case by simp
next
  case (Cons o' os)
  obtain b e tx where o': "o' = (b, e, tx)" by (cases o')
  show ?case
  proof (cases b)
    case None
    with o' Cons [of p] show ?thesis by (simp add: clamp_output_sentinel)
  next
    case (Some bv)
    show ?thesis
    proof (cases e)
      case None
      with Some o' show ?thesis by (simp add: clamp_output_def)
    next
      case (Some ev)
      let ?p' = "p\<lparr>last_end := Some (ev * 1000)\<rparr>"
      let ?beg = "case last_end p of None \<Rightarrow> bv * 1000 | Some l \<Rightarrow> max (bv * 1000) l"
      have eq: "intervals_emitted p (o' # os) = (?beg, ev * 1000) # intervals_emitted ?p' os"
        using o' \<open>b = Some bv\<close> Some by (simp add: clamp_output_interval)
      have IH1: "\<forall>x \<in> set (take 1 (intervals_emitted ?p' os)). ev * 1000 \<le> fst x"
        using Cons [of ?p'] by simp
      have IH2: "\<forall>i. Suc i < length (intervals_emitted ?p' os) \<longrightarrow>
          snd (intervals_emitted ?p' os ! i) \<le> fst (intervals_emitted ?p' os ! Suc i)"
        using Cons [of ?p'] by simp
      have first: "\<forall>l. last_end p = Some l \<longrightarrow> l \<le> ?beg"
        by (auto split: option.splits)
      have adj: "Suc i < length (intervals_emitted p (o' # os)) \<Longrightarrow>
          snd (intervals_emitted p (o' # os) ! i) \<le> fst (intervals_emitted p (o' # os) ! Suc i)" for i
      proof (cases i)
        case 0
        assume "Suc i < length (intervals_emitted p (o' # os))"
        with 0 eq obtain x xs where xs: "intervals_emitted ?p' os = x # xs"
          by (cases "intervals_emitted ?p' os") auto
        with IH1 have "ev * 1000 \<le> fst x" by simp
        with 0 eq xs show ?thesis by simp
      next
        case (Suc j)
        assume "Suc i < length (intervals_emitted p (o' # os))"
        with Suc eq IH2 show ?thesis by simp
      qed
      from first adj eq show ?thesis by simp
    qed
  qed
qed

lemma format_output_transcript_interval:
  "format_output_transcript p (Some b, Some e, tx) =
     (Inr (interval_line (case last_end p of None \<Rightarrow> b * 1000 | Some l \<Rightarrow> max (b * 1000) l) (e * 1000) tx),
      p\<lparr>last_end := Some (e * 1000)\<rparr>)"
  by (simp add: format_output_transcript_def clamp_output_interval)

lemma format_output_transcript_sentinel:
  "format_output_transcript p (None, e, tx) = (Inr ''No input'', p)"
  by (simp add: format_output_transcript_def clamp_output_sentinel)

lemma fmt_1_0f_numeral [simp]: "fmt_1_0f (numeral n) = decimal (numeral n)"
  by (simp add: fmt_1_0f_def round_half_even_def)

text \<open>
  Claim C2 (non-overlap clamp). When the recogniser returns an interval whose begin, in
  milliseconds, is less than the session's \<open>last_end\<close>, the interval that
  \<open>format_output_transcript\<close> formats begins at the previous \<open>last_end\<close> and ends at the
  recogniser's own end, which becomes the new \<open>last_end\<close>. Consequently, among the intervals
  that one session formats, each begins no earlier than the one before it ends, whatever
  the outputs of the recogniser and with any number of outputs without text in between.
\<close>

theorem clamp_begin_to_last_end:
  assumes "last_end p = Some l" and "b * 1000 < l"
  shows "clamp_output p (Some b, Some e, tx) =
           (Inr (Interval l (e * 1000) tx), p\<lparr>last_end := Some (e * 1000)\<rparr>)
       \<and> format_output_transcript p (Some b, Some e, tx) =
           (Inr (interval_line l (e * 1000) tx), p\<lparr>last_end := Some (e * 1000)\<rparr>)
       \<and> (\<forall>i. Suc i < length (intervals_emitted q os) \<longrightarrow>
             snd (intervals_emitted q os ! i) \<le> fst (intervals_emitted q os ! Suc i))"
proof -
  from assms have m: "max (b * 1000) l = l" by simp
  have "clamp_output p (Some b, Some e, tx) =
      (Inr (Interval l (e * 1000) tx), p\<lparr>last_end := Some (e * 1000)\<rparr>)"
    using assms(1) m by (simp add: clamp_output_interval)
  moreover have "format_output_transcript p (Some b, Some e, tx) =
      (Inr (interval_line l (e * 1000) tx), p\<lparr>last_end := Some (e * 1000)\<rparr>)"
    using assms(1) m by (simp add: format_output_transcript_interval)
  moreover have "\<forall>i. Suc i < length (intervals_emitted q os) \<longrightarrow>
      snd (intervals_emitted q os ! i) \<le> fst (intervals_emitted q os ! Suc i)"
    using intervals_emitted_adjacent [of q os] by blast
  ultimately show ?thesis by blast
qed

theorem clamp_begin_to_last_end_witness:
  "last_end ((ServerProcessor (Connection \<lparr>blocking = True, inbound = [], sent = [],
        send_faults = [], recv_calls = 0\<rparr>) () 1)\<lparr>last_end := Some 2000\<rparr>) = Some 2000
   \<and> (19 / 10 :: rat) * 1000 < 2000
   \<and> format_output_transcript
        ((ServerProcessor (Connection \<lparr>blocking = True, inbound = [], sent = [],
            send_faults = [], recv_calls = 0\<rparr>) () 1)\<lparr>last_end := Some 2000\<rparr>)
        (Some (19 / 10), Some (5 / 2), ''hi'')
      = (Inr ''2000 2500 hi'',
         (ServerProcessor (Connection \<lparr>blocking = True, inbound = [], sent = [],
            send_faults = [], recv_calls = 0\<rparr>) () 1)\<lparr>last_end := Some 2500\<rparr>)
   \<and> intervals_emitted
        ((ServerProcessor (Connection \<lparr>blocking = True, inbound = [], sent = [],
            send_faults = [], recv_calls = 0\<rparr>) () 1)\<lparr>last_end := Some 2000\<rparr>)
        [(Some (19 / 10), Some (5 / 2), ''a''), (None, None, []), (Some (12 / 5), Some 3, ''b'')]
      = [(2000, 2500), (2500, 3000)]"
proof -
  let ?p = "(ServerProcessor (Connection \<lparr>blocking = True, inbound = [], sent = [],
        send_faults = [], recv_calls = 0\<rparr>) () 1)\<lparr>last_end := Some 2000\<rparr>"
  have h1: "last_end ?p = Some 2000" by simp
  have h2: "(19 / 10 :: rat) * 1000 < 2000" by simp
  from clamp_begin_to_last_end [OF h1 h2, of "5 / 2" "''hi''" ?p "[]"]
  have "format_output_transcript ?p (Some (19 / 10), Some (5 / 2), ''hi'') =
      (Inr (interval_line 2000 (5 / 2 * 1000) ''hi''), ?p\<lparr>last_end := Some (5 / 2 * 1000)\<rparr>)"
    by blast
  then have "format_output_transcript ?p (Some (19 / 10), Some (5 / 2), ''hi'') =
      (Inr ''2000 2500 hi'', ?p\<lparr>last_end := Some 2500\<rparr>)"
    by (simp add: interval_line_def decimal.simps)
  moreover have "intervals_emitted ?p
        [(Some (19 / 10), Some (5 / 2), ''a''), (None, None, []), (Some (12 / 5), Some 3, ''b'')]
      = [(2000, 2500), (2500, 3000)]"
    by (simp add: clamp_output_def)
  ultimately show ?thesis using h1 h2 by simp
qed

text \<open>
  Claim C10 (implicit). \<open>format_output_transcript\<close> always sets \<open>last_end\<close> to the end time
  of the recogniser, never to the clamped begin. So when the recogniser's end, in
  milliseconds, is smaller than the current \<open>last_end\<close>, the interval formatted ends
  strictly before it begins, and \<open>last_end\<close> strictly decreases in that call.
\<close>

theorem last_end_takes_raw_end:
  assumes "last_end p = Some l" and "e * 1000 < l"
  shows "clamp_output p (Some b, Some e, tx) =
           (Inr (Interval (max (b * 1000) l) (e * 1000) tx), p\<lparr>last_end := Some (e * 1000)\<rparr>)
       \<and> format_output_transcript p (Some b, Some e, tx) =
           (Inr (interval_line (max (b * 1000) l) (e * 1000) tx), p\<lparr>last_end := Some (e * 1000)\<rparr>)
       \<and> e * 1000 < max (b * 1000) l
       \<and> last_end (snd (format_output_transcript p (Some b, Some e, tx))) = Some (e * 1000)
       \<and> last_end (snd (format_output_transcript q (Some b', Some e', tx'))) = Some (e' * 1000)"
  using assms by (simp add: clamp_output_interval format_output_transcript_interval)

theorem last_end_takes_raw_end_witness:
  "format_output_transcript
        ((ServerProcessor (Connection \<lparr>blocking = True, inbound = [], sent = [],
            send_faults = [], recv_calls = 0\<rparr>) () 1)\<lparr>last_end := Some 2000\<rparr>)
        (Some 1, Some (3 / 2), ''x'')
      = (Inr ''2000 1500 x'',
         (ServerProcessor (Connection \<lparr>blocking = True, inbound = [], sent = [],
            send_faults = [], recv_calls = 0\<rparr>) () 1)\<lparr>last_end := Some 1500\<rparr>)
   \<and> (3 / 2 :: rat) * 1000 < 2000"
proof -
  let ?p = "(ServerProcessor (Connection \<lparr>blocking = True, inbound = [], sent = [],
        send_faults = [], recv_calls = 0\<rparr>) () 1)\<lparr>last_end := Some 2000\<rparr>"
  have h1: "last_end ?p = Some 2000" by simp
  have h2: "(3 / 2 :: rat) * 1000 < 2000" by simp
  from last_end_takes_raw_end [OF h1 h2, of 1 "''x''"]
  have "format_output_transcript ?p (Some 1, Some (3 / 2), ''x'') =
      (Inr (interval_line (max (1 * 1000) 2000) (3 / 2 * 1000) ''x''), ?p\<lparr>last_end := Some (3 / 2 * 1000)\<rparr>)"
    by blast
  then show ?thesis
    by (simp add: interval_line_def decimal.simps)
qed

section \<open>The Stream Reassembler\<close>

text \<open>
  A script that holds nothing but non-empty data, and the bytes that it delivers.
\<close>

fun is_data :: "'i event \<Rightarrow> bool" where
  "is_data (Data d) = (d \<noteq> [])"
| "is_data e = False"

fun script_bytes :: "'i event list \<Rightarrow> 'i list" where
  "script_bytes [] = []"
| "script_bytes (Data d # es) = d @ script_bytes es"
| "script_bytes (e # es) = script_bytes es"

lemma script_bytes_map_Data: "script_bytes (map Data frags) = concat frags"
  by (induction frags) auto

lemma list_all_is_data_map_Data: "list_all is_data (map Data frags) = (\<forall>f \<in> set frags. f \<noteq> [])"
  by (induction frags) auto

lemma recv_from_clean:
  assumes "list_all is_data es" and "0 < n" and "recv_from b n es = (r, es')"
  shows "\<exists>frag. r = Inr frag \<and> length frag \<le> n \<and> list_all is_data es'
           \<and> frag @ script_bytes es' = script_bytes es \<and> (frag = [] \<longrightarrow> es = [] \<and> es' = [])"
proof (cases es)
  case Nil
  with assms show ?thesis by auto
next
  case (Cons e es1)
  with assms(1) obtain d where d: "e = Data d" "d \<noteq> []" "list_all is_data es1"
    by (cases e) auto
  with Cons assms(2,3) show ?thesis
    by (cases "length d \<le> n") (auto simp: min_def)
qed

lemma recv_clean:
  assumes "list_all is_data (inbound s)" and "0 < n" and "recv s n = (r, s')"
  shows "\<exists>frag. r = Inr frag \<and> length frag \<le> n \<and> list_all is_data (inbound s')
           \<and> frag @ script_bytes (inbound s') = script_bytes (inbound s)
           \<and> (frag = [] \<longrightarrow> inbound s = [] \<and> inbound s' = [])"
proof -
  obtain r1 es1 where rf: "recv_from (blocking s) n (inbound s) = (r1, es1)"
    by (cases "recv_from (blocking s) n (inbound s)")
  with assms(3) have "r = r1" "inbound s' = es1" by (auto simp: recv_def)
  with recv_from_clean [OF assms(1,2) rf] show ?thesis by simp
qed

lemma receive_loop_clean:
  "list_all is_data (inbound s) \<Longrightarrow> n = PACKET_SIZE - length buffer \<Longrightarrow>
   length buffer \<le> PACKET_SIZE \<Longrightarrow> receive_loop s buffer n = (r, s') \<Longrightarrow>
   list_all is_data (inbound s') \<and>
   buffer @ script_bytes (inbound s) = (case r of None \<Rightarrow> [] | Some f \<Rightarrow> f) @ script_bytes (inbound s') \<and>
   (\<forall>f. r = Some f \<longrightarrow> f \<noteq> [] \<and> length f \<le> PACKET_SIZE \<and> (length f < PACKET_SIZE \<longrightarrow> inbound s' = [])) \<and>
   (r = None \<longrightarrow> inbound s' = [])"
proof (induction s buffer n arbitrary: r s' rule: receive_loop.induct)
  case (1 s buffer n)
  show ?case
  proof (cases "length buffer < PACKET_SIZE")
    case False
    with "1.prems" PACKET_SIZE_pos show ?thesis
      by (auto simp: receive_loop.simps)
  next
    case True
    obtain x s1 where rc: "recv s n = (x, s1)" by (cases "recv s n")
    from True "1.prems"(2) have npos: "0 < n" by simp
    from recv_clean [OF "1.prems"(1) npos rc]
    obtain fragment where fr: "x = Inr fragment" "length fragment \<le> n"
      "list_all is_data (inbound s1)"
      "fragment @ script_bytes (inbound s1) = script_bytes (inbound s)"
      "fragment = [] \<longrightarrow> inbound s = [] \<and> inbound s1 = []"
      by blast
    show ?thesis
    proof (cases "fragment = []")
      case True
      with "1.prems" \<open>length buffer < PACKET_SIZE\<close> rc fr show ?thesis
        by (auto simp: receive_loop.simps split: if_splits)
    next
      case False
      from "1.prems" \<open>length buffer < PACKET_SIZE\<close> rc fr(1) False
      have rec: "receive_loop s1 (buffer @ fragment) (PACKET_SIZE - length (buffer @ fragment)) = (r, s')"
        by (simp add: receive_loop.simps)
      have len: "length (buffer @ fragment) \<le> PACKET_SIZE"
        using fr(2) "1.prems"(2) \<open>length buffer < PACKET_SIZE\<close> by simp
      from "1.IH" [OF \<open>length buffer < PACKET_SIZE\<close> rc [symmetric] fr(1) False fr(3) refl len rec]
      have "list_all is_data (inbound s')"
        and "(buffer @ fragment) @ script_bytes (inbound s1) =
             (case r of None \<Rightarrow> [] | Some f \<Rightarrow> f) @ script_bytes (inbound s')"
        and "\<forall>f. r = Some f \<longrightarrow> f \<noteq> [] \<and> length f \<le> PACKET_SIZE \<and> (length f < PACKET_SIZE \<longrightarrow> inbound s' = [])"
        and "r = None \<longrightarrow> inbound s' = []"
        by blast+
      with fr(4) show ?thesis by (metis append.assoc)
    qed
  qed
qed

lemma non_blocking_receive_audio_clean:
  assumes "list_all is_data (inbound (conn c))" and "non_blocking_receive_audio c = (r, c')"
  shows "list_all is_data (inbound (conn c')) \<and>
   script_bytes (inbound (conn c)) = (case r of None \<Rightarrow> [] | Some f \<Rightarrow> f) @ script_bytes (inbound (conn c')) \<and>
   (\<forall>f. r = Some f \<longrightarrow> f \<noteq> [] \<and> length f \<le> PACKET_SIZE \<and> (length f < PACKET_SIZE \<longrightarrow> inbound (conn c') = [])) \<and>
   (r = None \<longrightarrow> inbound (conn c') = [])"
proof -
  obtain s' where rl: "receive_loop (conn c) [] PACKET_SIZE = (r, s')" and c': "c' = c\<lparr>conn := s'\<rparr>"
    using assms(2) by (auto simp: non_blocking_receive_audio_def split: prod.splits)
  from receive_loop_clean [OF assms(1) _ _ rl] c' show ?thesis by simp
qed

lemma receive_frames_closed:
  assumes "inbound (conn c) = []"
  shows "receive_frames c = []"
proof -
  obtain r c' where nb: "non_blocking_receive_audio c = (r, c')"
    by (cases "non_blocking_receive_audio c")
  from assms have "list_all is_data (inbound (conn c))" by simp
  from non_blocking_receive_audio_clean [OF this nb] assms have "r = None"
    by (cases r) auto
  with nb show ?thesis by (simp add: receive_frames.simps)
qed

lemma receive_frames_clean:
  "list_all is_data (inbound (conn c)) \<Longrightarrow>
   concat (receive_frames c) = script_bytes (inbound (conn c)) \<and>
   (\<forall>f \<in> set (receive_frames c). f \<noteq> [] \<and> length f \<le> PACKET_SIZE) \<and>
   (\<forall>f \<in> set (butlast (receive_frames c)). length f = PACKET_SIZE)"
proof (induction c rule: receive_frames.induct)
  case (1 c)
  obtain r c' where nb: "non_blocking_receive_audio c = (r, c')"
    by (cases "non_blocking_receive_audio c")
  note cl = non_blocking_receive_audio_clean [OF "1.prems" nb]
  show ?case
  proof (cases r)
    case None
    with nb cl show ?thesis by (simp add: receive_frames.simps)
  next
    case (Some frame)
    with nb have rf: "receive_frames c = frame # receive_frames c'"
      by (simp add: receive_frames.simps)
    from cl Some have c'clean: "list_all is_data (inbound (conn c'))"
      and bytes: "script_bytes (inbound (conn c)) = frame @ script_bytes (inbound (conn c'))"
      and fr: "frame \<noteq> []" "length frame \<le> PACKET_SIZE"
        "length frame < PACKET_SIZE \<longrightarrow> inbound (conn c') = []"
      by auto
    from "1.IH" [OF nb [symmetric] _ c'clean] Some
    have IH: "concat (receive_frames c') = script_bytes (inbound (conn c'))"
      "\<forall>f \<in> set (receive_frames c'). f \<noteq> [] \<and> length f \<le> PACKET_SIZE"
      "\<forall>f \<in> set (butlast (receive_frames c')). length f = PACKET_SIZE"
      by auto
    have full: "receive_frames c' \<noteq> [] \<Longrightarrow> length frame = PACKET_SIZE"
      using fr(2,3) receive_frames_closed [of c'] by fastforce
    from rf IH bytes fr full show ?thesis by auto
  qed
qed

text \<open>
  Claim C1 (framing idempotence). On a connection whose socket delivers a sequence of
  non-empty fragments and then the end of the stream, the frames returned by successive
  calls of \<open>non_blocking_receive_audio\<close> concatenate to the concatenation of the fragments,
  and every frame but possibly the last has exactly \<open>PACKET_SIZE\<close> bytes; no frame is empty
  or longer than that.
\<close>

theorem framing_idempotence:
  assumes "inbound (conn c) = map Data frags" and "\<forall>f \<in> set frags. f \<noteq> []"
  shows "concat (receive_frames c) = concat frags
       \<and> (\<forall>f \<in> set (butlast (receive_frames c)). length f = PACKET_SIZE)
       \<and> (\<forall>f \<in> set (receive_frames c). f \<noteq> [] \<and> length f \<le> PACKET_SIZE)"
proof -
  from assms have "list_all is_data (inbound (conn c))"
    by (simp add: list_all_is_data_map_Data)
  from receive_frames_clean [OF this] assms(1) show ?thesis
    by (simp add: script_bytes_map_Data)
qed

lemma recv_Data_short:
  "inbound s = Data d # es \<Longrightarrow> length d \<le> n \<Longrightarrow>
   recv s n = (Inr d, s\<lparr>inbound := es, recv_calls := Suc (recv_calls s)\<rparr>)"
  by (simp add: recv_def)

lemma recv_Data_long:
  "inbound s = Data d # es \<Longrightarrow> n < length d \<Longrightarrow>
   recv s n = (Inr (take n d), s\<lparr>inbound := Data (drop n d) # es, recv_calls := Suc (recv_calls s)\<rparr>)"
  by (simp add: recv_def)

lemma recv_closed:
  "inbound s = [] \<Longrightarrow> recv s n = (Inr [], s\<lparr>inbound := [], recv_calls := Suc (recv_calls s)\<rparr>)"
  by (simp add: recv_def)

theorem framing_idempotence_witness:
  "inbound (conn (Connection \<lparr>blocking = False,
       inbound = [Data [5], Data (replicate 64000 7), Data [1, 2]], sent = [],
       send_faults = [], recv_calls = 0\<rparr>)) = map Data [[5], replicate 64000 7, [1, 2]]
   \<and> [5 :: byte] \<noteq> [] \<and> replicate 64000 (7 :: byte) \<noteq> [] \<and> [1, 2 :: byte] \<noteq> []
   \<and> receive_frames (Connection \<lparr>blocking = False,
       inbound = [Data [5], Data (replicate 64000 7), Data [1, 2]], sent = [],
       send_faults = [], recv_calls = 0\<rparr>) = [5 # replicate 63999 7, [7, 1, 2]]
   \<and> concat (receive_frames (Connection \<lparr>blocking = False,
       inbound = [Data [5], Data (replicate 64000 7), Data [1, 2]], sent = [],
       send_faults = [], recv_calls = 0\<rparr>)) = concat [[5], replicate 64000 7, [1, 2]]"
proof -
  let ?c = "Connection \<lparr>blocking = False,
       inbound = [Data [5 :: byte], Data (replicate 64000 7), Data [1, 2]], sent = [],
       send_faults = [], recv_calls = 0\<rparr>"
  have h1: "inbound (conn ?c) = map Data [[5], replicate 64000 7, [1, 2]]"
    by (simp add: Connection_def)
  have h2: "\<forall>f \<in> set [[5 :: byte], replicate 64000 7, [1, 2]]. f \<noteq> []" by simp
  have ev: "receive_frames ?c = [5 # replicate 63999 7, [7, 1, 2]]"
    by (simp add: receive_frames.simps non_blocking_receive_audio_def receive_loop.simps
          Connection_def recv_def PACKET_SIZE_def SAMPLING_RATE_def)
  from framing_idempotence [OF h1 h2]
  have "concat (receive_frames ?c) = concat [[5], replicate 64000 7, [1, 2]]"
    by blast
  with h1 ev show ?thesis by simp
qed

lemma recv_sent: "recv s n = (r, s') \<Longrightarrow> sent s' = sent s \<and> send_faults s' = send_faults s"
  by (auto simp: recv_def split: prod.splits)

lemma receive_loop_zero_read:
  assumes "recv s n = (Inr [], s')" and "length buffer < PACKET_SIZE"
  shows "receive_loop s buffer n = (if buffer = [] then None else Some buffer, s')"
  using assms by (simp add: receive_loop.simps)

lemma non_blocking_receive_audio_short:
  assumes "inbound (conn c) = map Data frags" and "\<forall>f \<in> set frags. f \<noteq> []"
    and "length (concat frags) < PACKET_SIZE"
  shows "fst (non_blocking_receive_audio c) = (if frags = [] then None else Some (concat frags))"
proof -
  obtain r c' where nb: "non_blocking_receive_audio c = (r, c')"
    by (cases "non_blocking_receive_audio c")
  from assms have cl: "list_all is_data (inbound (conn c))"
    by (simp add: list_all_is_data_map_Data)
  note f = non_blocking_receive_audio_clean [OF cl nb]
  have bytes: "script_bytes (inbound (conn c)) = concat frags"
    using assms(1) by (simp add: script_bytes_map_Data)
  show ?thesis
  proof (cases r)
    case None
    with f bytes have "concat frags = []" by simp
    with assms(2) have "frags = []" by (cases frags) auto
    with nb None show ?thesis by simp
  next
    case (Some fr)
    with f bytes have e: "concat frags = fr @ script_bytes (inbound (conn c'))"
      and ne: "fr \<noteq> []" and sh: "length fr < PACKET_SIZE \<longrightarrow> inbound (conn c') = []"
      by auto
    from e assms(3) have "length fr < PACKET_SIZE" by simp
    with sh e have "concat frags = fr" by simp
    with ne nb Some show ?thesis by auto
  qed
qed

lemma process_no_chunk:
  assumes "non_blocking_receive_audio (connection p) = (None, c')"
  shows "process online p = p\<lparr>online_asr_proc := asr_init online (online_asr_proc p), connection := c'\<rparr>"
  using assms
  by (simp add: process_def process_loop.simps receive_audio_chunk_def)

text \<open>
  Claim C6 (end of stream in the reassembler). When a read returns zero bytes,
  \<open>non_blocking_receive_audio\<close> returns \<open>None\<close> if its buffer is empty and otherwise the
  buffer, which is shorter than \<open>PACKET_SIZE\<close> and not empty. So a stream that ends before
  a frame is full is returned whole as a short frame, and zero bytes on the very first
  read end the stream at once: \<open>process\<close> then sends nothing and counts no chunk.
\<close>

theorem zero_read_ends_stream:
  assumes "recv s n = (Inr [], s')" and "length buffer < PACKET_SIZE"
  shows "receive_loop s buffer n = (if buffer = [] then None else Some buffer, s')
       \<and> (s = conn c \<and> n = PACKET_SIZE \<longrightarrow>
            non_blocking_receive_audio c = (None, c\<lparr>conn := s'\<rparr>))
       \<and> (s = conn (connection p) \<and> n = PACKET_SIZE \<longrightarrow>
            sent (conn (connection (process online p))) = sent (conn (connection p))
            \<and> chunk_num (process online p) = chunk_num p)
       \<and> (inbound (conn c1) = map Data frags \<and> (\<forall>f \<in> set frags. f \<noteq> [])
            \<and> length (concat frags) < PACKET_SIZE \<longrightarrow>
            fst (non_blocking_receive_audio c1) = (if frags = [] then None else Some (concat frags)))"
proof -
  have a: "receive_loop s buffer n = (if buffer = [] then None else Some buffer, s')"
    using assms by (rule receive_loop_zero_read)
  have b: "non_blocking_receive_audio c = (None, c\<lparr>conn := s'\<rparr>)"
    if "s = conn c \<and> n = PACKET_SIZE"
    using that assms(1) PACKET_SIZE_pos
    by (simp add: non_blocking_receive_audio_def receive_loop.simps)
  have c: "sent (conn (connection (process online p))) = sent (conn (connection p))
      \<and> chunk_num (process online p) = chunk_num p"
    if h: "s = conn (connection p) \<and> n = PACKET_SIZE"
  proof -
    from h assms(1) PACKET_SIZE_pos
    have "non_blocking_receive_audio (connection p) = (None, (connection p)\<lparr>conn := s'\<rparr>)"
      by (simp add: non_blocking_receive_audio_def receive_loop.simps)
    from process_no_chunk [OF this] recv_sent [OF assms(1)] h show ?thesis by simp
  qed
  from a b c non_blocking_receive_audio_short [of c1 frags] show ?thesis by blast
qed

theorem zero_read_ends_stream_witness:
  "recv \<lparr>blocking = True, inbound = [], sent = [], send_faults = [], recv_calls = 0\<rparr> 63997
     = (Inr ([] :: byte list),
        \<lparr>blocking = True, inbound = [], sent = ([] :: string list), send_faults = [], recv_calls = 1\<rparr>)
   \<and> length [1, 2, 3 :: byte] < PACKET_SIZE
   \<and> receive_loop \<lparr>blocking = True, inbound = [], sent = [], send_faults = [], recv_calls = 0\<rparr>
        [1, 2, 3] 63997
     = (Some [1, 2, 3],
        \<lparr>blocking = True, inbound = [], sent = [], send_faults = [], recv_calls = 1\<rparr>)"
proof -
  let ?s = "\<lparr>blocking = True, inbound = [], sent = [], send_faults = [], recv_calls = 0\<rparr>
    :: (byte, char) socket"
  let ?s' = "\<lparr>blocking = True, inbound = [], sent = [], send_faults = [], recv_calls = 1\<rparr>
    :: (byte, char) socket"
  have h1: "recv ?s 63997 = (Inr [], ?s')" by (simp add: recv_def)
  have h2: "length [1, 2, 3 :: byte] < PACKET_SIZE"
    by (simp add: PACKET_SIZE_def SAMPLING_RATE_def)
  from zero_read_ends_stream [OF h1 h2]
  have "receive_loop ?s [1, 2, 3] 63997 = (if [1, 2, 3 :: byte] = [] then None else Some [1, 2, 3], ?s')"
    by blast
  with h1 h2 show ?thesis by simp
qed

section \<open>The session of the server\<close>

lemma receive_loop_sent:
  "receive_loop s buffer n = (r, s') \<Longrightarrow> sent s' = sent s \<and> send_faults s' = send_faults s"
proof (induction s buffer n arbitrary: r s' rule: receive_loop.induct)
  case (1 s buffer n)
  show ?case
  proof (cases "length buffer < PACKET_SIZE")
    case False
    with "1.prems" show ?thesis by (simp add: receive_loop.simps)
  next
    case True
    obtain x s1 where rc: "recv s n = (x, s1)" by (cases "recv s n")
    note s1 = recv_sent [OF rc]
    show ?thesis
    proof (cases x)
      case (Inl e)
      with "1.prems" True rc s1 show ?thesis by (simp add: receive_loop.simps)
    next
      case (Inr fragment)
      show ?thesis
      proof (cases "fragment = []")
        case True
        with "1.prems" \<open>length buffer < PACKET_SIZE\<close> rc Inr s1 show ?thesis
          by (auto simp: receive_loop.simps split: if_splits)
      next
        case False
        from "1.prems" \<open>length buffer < PACKET_SIZE\<close> rc Inr False
        have "receive_loop s1 (buffer @ fragment) (PACKET_SIZE - length (buffer @ fragment)) = (r, s')"
          by (simp add: receive_loop.simps)
        from "1.IH" [OF \<open>length buffer < PACKET_SIZE\<close> rc [symmetric] Inr False this] s1
        show ?thesis by simp
      qed
    qed
  qed
qed

lemma receive_audio_chunk_effect:
  assumes "receive_audio_chunk p = (r, p1)"
  shows "sent (conn (connection p1)) = sent (conn (connection p))
       \<and> send_faults (conn (connection p1)) = send_faults (conn (connection p))
       \<and> chunk_num p1 = (if r = None then chunk_num p else chunk_num p + 1)
       \<and> last_end p1 = last_end p \<and> min_chunk p1 = min_chunk p"
proof -
  obtain x s' where rl: "receive_loop (conn (connection p)) [] PACKET_SIZE = (x, s')"
    by (cases "receive_loop (conn (connection p)) [] PACKET_SIZE")
  note receive_loop_sent [OF rl]
  with assms rl show ?thesis
    by (auto simp: receive_audio_chunk_def non_blocking_receive_audio_def Let_def
             split: option.splits if_splits)
qed

text \<open>What \<open>send_result\<close> writes for an output: the formatted line without newlines, and the newline.\<close>

definition message_of :: "transcript \<Rightarrow> string" where
  "message_of t = map (\<lambda>ch. if ch = newline then CHR '' '' else ch) (render t) @ [newline]"

lemma message_of_line: "\<exists>line. message_of t = line @ [newline] \<and> newline \<notin> set line"
proof -
  have "newline \<notin> set (map (\<lambda>ch. if ch = newline then CHR '' '' else ch) (render t))"
    by (auto simp: newline_def)
  then show ?thesis unfolding message_of_def by blast
qed

lemma send_result_ok:
  assumes "send_faults (conn (connection p)) = []" and "clamp_output p o' = (Inr t, p1)"
  shows "\<exists>p'. send_result p o' = (None, p')
           \<and> sent (conn (connection p')) = sent (conn (connection p)) @ [message_of t]
           \<and> send_faults (conn (connection p')) = []
           \<and> chunk_num p' = chunk_num p"
proof -
  from assms(2) have c: "connection p1 = connection p" and n: "chunk_num p1 = chunk_num p"
    by (auto simp: clamp_output_def Let_def split: prod.splits option.splits)
  from assms(1) c show ?thesis
    by (simp add: send_result_def format_output_transcript_def assms(2) send_def
          send_one_line_def sendall_def message_of_def n Let_def)
qed

definition well_formed :: "asr_output \<Rightarrow> bool" where
  "well_formed o' = (case o' of (Some b, None, tx) \<Rightarrow> False | _ \<Rightarrow> True)"

lemma well_formed_clamp:
  "well_formed o' \<Longrightarrow> \<exists>t p1. clamp_output p o' = (Inr t, p1)"
  by (auto simp: well_formed_def clamp_output_def Let_def split: prod.splits option.splits)

lemma process_loop_messages:
  "send_faults (conn (connection p)) = [] \<Longrightarrow> \<forall>r. well_formed (fst (process_iter online r)) \<Longrightarrow>
   \<exists>ms. sent (conn (connection (process_loop online p))) = sent (conn (connection p)) @ ms
       \<and> length ms + chunk_num p = chunk_num (process_loop online p)
       \<and> (\<forall>m \<in> set ms. \<exists>line. m = line @ [newline] \<and> newline \<notin> set line)"
proof (induction "script_size (inbound (conn (connection p)))" arbitrary: p rule: less_induct)
  case less
  obtain x p1 where ra: "receive_audio_chunk p = (x, p1)" by (cases "receive_audio_chunk p")
  note eff = receive_audio_chunk_effect [OF ra]
  show ?case
  proof (cases x)
    case None
    with ra have "process_loop online p = p1" by (simp add: process_loop.simps [of online p])
    with eff None show ?thesis by simp
  next
    case (Some a)
    define p2 where "p2 = p1\<lparr>online_asr_proc := insert_audio_chunk online a (online_asr_proc p1)\<rparr>"
    obtain o' r where pi: "process_iter online (online_asr_proc p2) = (o', r)"
      by (cases "process_iter online (online_asr_proc p2)")
    define p3 where "p3 = p2\<lparr>online_asr_proc := r\<rparr>"
    from less.prems(2) pi have "well_formed o'" by (metis fst_conv)
    then obtain t q where cl: "clamp_output p3 o' = (Inr t, q)"
      using well_formed_clamp by blast
    have sf: "send_faults (conn (connection p3)) = []"
      using eff less.prems(1) by (simp add: p3_def p2_def)
    from send_result_ok [OF sf cl] obtain p4 where sr: "send_result p3 o' = (None, p4)"
      and s4: "sent (conn (connection p4)) = sent (conn (connection p3)) @ [message_of t]"
      and f4: "send_faults (conn (connection p4)) = []"
      and n4: "chunk_num p4 = chunk_num p3"
      by blast
    have step: "process_loop online p = process_loop online p4"
      using ra Some pi sr by (simp add: process_loop.simps [of online p] p2_def p3_def Let_def)
    have "script_size (inbound (conn (connection p4))) < script_size (inbound (conn (connection p)))"
      using receive_audio_chunk_size [of p a p1] ra Some send_result_inbound [OF sr]
      by (simp add: p3_def p2_def)
    from less.hyps [OF this f4 less.prems(2)]
    obtain ms where ms: "sent (conn (connection (process_loop online p4))) = sent (conn (connection p4)) @ ms"
      "length ms + chunk_num p4 = chunk_num (process_loop online p4)"
      "\<forall>m \<in> set ms. \<exists>line. m = line @ [newline] \<and> newline \<notin> set line"
      by blast
    have "sent (conn (connection (process_loop online p))) = sent (conn (connection p)) @ (message_of t # ms)"
      using step ms(1) s4 eff by (simp add: p3_def p2_def)
    moreover have "length (message_of t # ms) + chunk_num p = chunk_num (process_loop online p)"
      using step ms(2) n4 eff Some by (simp add: p3_def p2_def)
    moreover have "\<forall>m \<in> set (message_of t # ms). \<exists>line. m = line @ [newline] \<and> newline \<notin> set line"
      using ms(3) message_of_line [of t] by auto
    ultimately show ?thesis by blast
  qed
qed

lemma length_pcm16_decode [simp]: "length (pcm16_decode bs) = length bs div 2"
  by (induction bs rule: pcm16_decode.induct) auto

lemma message_of_NoInput: "message_of NoInput = ''No input'' @ [newline]"
  by (simp add: message_of_def newline_def)

text \<open>
  Claim C7 (one message per processed frame). \<open>process\<close> counts in \<open>chunk_num\<close> the chunks
  that \<open>receive_audio_chunk\<close> returns, each of which it hands to the recogniser. As long as
  sending does not raise and the recogniser returns an end with every begin, the session
  sends exactly one message for each of them, and each message is one line ended by its
  only newline: the formatted interval when the recogniser returns one, and the line
  \<open>No input\<close> when it returns none, which is sent like any other.
\<close>

theorem one_message_per_frame:
  assumes "send_faults (conn (connection p)) = []"
    and "\<forall>r. well_formed (fst (process_iter online r))"
  shows "(\<exists>ms. sent (conn (connection (process online p))) = sent (conn (connection p)) @ ms
            \<and> length ms + chunk_num p = chunk_num (process online p)
            \<and> (\<forall>m \<in> set ms. \<exists>line. m = line @ [newline] \<and> newline \<notin> set line))
       \<and> (\<exists>p'. send_result p (None, e, tx) = (None, p')
            \<and> sent (conn (connection p')) = sent (conn (connection p)) @ [''No input'' @ [newline]])
       \<and> (\<exists>p'. send_result p (Some b, Some e', tx) = (None, p')
            \<and> sent (conn (connection p')) = sent (conn (connection p)) @
                [message_of (Interval (case last_end p of None \<Rightarrow> b * 1000 | Some l \<Rightarrow> max (b * 1000) l)
                   (e' * 1000) tx)])"
proof -
  let ?p0 = "p\<lparr>online_asr_proc := asr_init online (online_asr_proc p)\<rparr>"
  have "send_faults (conn (connection ?p0)) = []" using assms(1) by simp
  from process_loop_messages [OF this assms(2)]
  have a: "\<exists>ms. sent (conn (connection (process online p))) = sent (conn (connection p)) @ ms
            \<and> length ms + chunk_num p = chunk_num (process online p)
            \<and> (\<forall>m \<in> set ms. \<exists>line. m = line @ [newline] \<and> newline \<notin> set line)"
    by (simp add: process_def)
  have b: "\<exists>p'. send_result p (None, e, tx) = (None, p')
            \<and> sent (conn (connection p')) = sent (conn (connection p)) @ [''No input'' @ [newline]]"
    using send_result_ok [OF assms(1) clamp_output_sentinel [of p e tx]]
    by (auto simp: message_of_NoInput)
  have c: "\<exists>p'. send_result p (Some b, Some e', tx) = (None, p')
            \<and> sent (conn (connection p')) = sent (conn (connection p)) @
                [message_of (Interval (case last_end p of None \<Rightarrow> b * 1000 | Some l \<Rightarrow> max (b * 1000) l)
                   (e' * 1000) tx)]"
    using send_result_ok [OF assms(1) clamp_output_interval [of p b e' tx]] by auto
  from a b c show ?thesis by blast
qed

theorem one_message_per_frame_witness:
  "send_faults (conn (connection (ServerProcessor (Connection \<lparr>blocking = False,
        inbound = [Data (replicate 64000 0), Data (replicate 64000 0)], sent = [],
        send_faults = [], recv_calls = 0\<rparr>) (0 :: nat) 1))) = []
   \<and> sent (conn (connection (process
        \<lparr>asr_init = (\<lambda>r. 0), insert_audio_chunk = (\<lambda>a r. Suc r),
         process_iter = (\<lambda>r. (if r = 1 then (None, None, []) else (Some 2, Some 4, ''ok''), r))\<rparr>
        (ServerProcessor (Connection \<lparr>blocking = False,
           inbound = [Data (replicate 64000 0), Data (replicate 64000 0)], sent = [],
           send_faults = [], recv_calls = 0\<rparr>) (0 :: nat) 1))))
      = [''No input'' @ [newline], ''2000 4000 ok'' @ [newline]]
   \<and> chunk_num (process
        \<lparr>asr_init = (\<lambda>r. 0), insert_audio_chunk = (\<lambda>a r. Suc r),
         process_iter = (\<lambda>r. (if r = 1 then (None, None, []) else (Some 2, Some 4, ''ok''), r))\<rparr>
        (ServerProcessor (Connection \<lparr>blocking = False,
           inbound = [Data (replicate 64000 0), Data (replicate 64000 0)], sent = [],
           send_faults = [], recv_calls = 0\<rparr>) (0 :: nat) 1)) = 2"
proof -
  let ?online = "\<lparr>asr_init = (\<lambda>r. 0), insert_audio_chunk = (\<lambda>a r. Suc r),
         process_iter = (\<lambda>r. (if r = 1 then (None, None, []) else (Some 2, Some 4, ''ok''), r))\<rparr>
         :: nat recognizer"
  let ?p = "ServerProcessor (Connection \<lparr>blocking = False,
        inbound = [Data (replicate 64000 0), Data (replicate 64000 0)], sent = [],
        send_faults = [], recv_calls = 0\<rparr>) (0 :: nat) 1"
  have h1: "send_faults (conn (connection ?p)) = []"
    by (simp add: ServerProcessor_def Connection_def)
  have h2: "\<forall>r. well_formed (fst (process_iter ?online r))"
    by (simp add: well_formed_def)
  have s0: "sent (conn (connection ?p)) = []"
    by (simp add: ServerProcessor_def Connection_def)
  have ev: "sent (conn (connection (process ?online ?p)))
      = [''No input'' @ [newline], ''2000 4000 ok'' @ [newline]]"
    by (simp add: process_def process_loop.simps receive_audio_chunk_def
          non_blocking_receive_audio_def receive_loop.simps recv_def
          ServerProcessor_def Connection_def PACKET_SIZE_def SAMPLING_RATE_def
          send_result_def format_output_transcript_def clamp_output_def send_def
          send_one_line_def sendall_def interval_line_def decimal.simps newline_def Let_def)
  from one_message_per_frame [OF h1 h2, of None "[]" 0 0] s0
  obtain ms where m1: "sent (conn (connection (process ?online ?p))) = ms"
    and m2: "length ms + chunk_num ?p = chunk_num (process ?online ?p)"
    by auto
  from m1 ev have "length ms = 2" by simp
  with m2 have "chunk_num (process ?online ?p) = 2"
    by (simp add: ServerProcessor_def)
  with h1 ev show ?thesis by simp
qed

text \<open>
  Claim C4 (accumulation while warming up) fails on the code. With a minimum chunk of
  three seconds and a client that sends two full frames of two seconds, the first frame
  is shorter than the minimum: \<open>receive_audio_chunk\<close> returns \<open>None\<close>, which \<open>process\<close> takes
  for the end of the stream. The session ends in its first state, nothing is sent, the
  audio of the first frame is dropped and the second frame is never read.
\<close>

theorem short_first_chunk_ends_session:
  "process online (ServerProcessor (Connection \<lparr>blocking = False,
        inbound = [Data (replicate 64000 0), Data (replicate 64000 0)], sent = [],
        send_faults = [], recv_calls = 0\<rparr>) r 3)
   = \<lparr>connection = \<lparr>conn = \<lparr>blocking = True, inbound = [Data (replicate 64000 0)],
          sent = [], send_faults = [], recv_calls = 1\<rparr>, last_line = []\<rparr>,
      online_asr_proc = asr_init online r, min_chunk = 3, last_end = None,
      is_first = True, chunk_num = 0\<rparr>"
  by (simp add: process_def process_loop.simps receive_audio_chunk_def
        non_blocking_receive_audio_def receive_loop.simps recv_def
        ServerProcessor_def Connection_def PACKET_SIZE_def SAMPLING_RATE_def Let_def)

section \<open>The Response Correlator\<close>




































lemma correlate_sock: "sock (correlate ms c) = sock c"
  by (induction ms c rule: correlate.induct) (auto simp: Let_def split: prod.splits)














section \<open>The Send Pacer\<close>

lemma correlate_frame:
  "\<exists>q' pr'. correlate ms c = c\<lparr>chunk_timestamps := q', printed := pr'\<rparr>"
proof (induction ms c rule: correlate.induct)
  case (1 c)
  have "correlate [] c = c\<lparr>chunk_timestamps := chunk_timestamps c, printed := printed c\<rparr>"
    by simp
  then show ?case by blast
next
  case (2 message messages c)
  show ?case
  proof (cases "message \<noteq> [] \<and> chunk_timestamps c \<noteq> []")
    case True
    obtain n t where hd: "hd (chunk_timestamps c) = (n, t)" by (cases "hd (chunk_timestamps c)")
    let ?c1 = "c\<lparr>chunk_timestamps := tl (chunk_timestamps c)\<rparr>"
    let ?c2 = "?c1\<lparr>printed := printed ?c1 @ [Response n t (clock ?c1) message]\<rparr>"
    from "2.IH"(1) [OF True hd [symmetric] refl refl]
    obtain q' pr' where "correlate messages ?c2 = ?c2\<lparr>chunk_timestamps := q', printed := pr'\<rparr>"
      by blast
    with True hd show ?thesis by (auto simp: Let_def)
  next
    case False
    from "2.IH"(2) [OF False] False show ?thesis by auto
  qed
qed

lemma try_receive_response_frame:
  "\<exists>s' q' pr'. try_receive_response c = c\<lparr>sock := s', chunk_timestamps := q', printed := pr'\<rparr>
     \<and> sent s' = sent (sock c) \<and> send_faults s' = send_faults (sock c)"
proof (cases "chunk_timestamps c = []")
  case True
  then have "try_receive_response c =
      c\<lparr>sock := sock c, chunk_timestamps := chunk_timestamps c, printed := printed c\<rparr>"
    by (simp add: try_receive_response_def)
  then show ?thesis by blast
next
  case False
  obtain readable s1 where sel: "select (sock c) = (readable, s1)" by (cases "select (sock c)")
  then have s1: "sent s1 = sent (sock c)" "send_faults s1 = send_faults (sock c)"
    by (auto simp: select_def split: list.splits event.splits)
  show ?thesis
  proof (cases readable)
    case False
    with \<open>chunk_timestamps c \<noteq> []\<close> sel
    have "try_receive_response c = c\<lparr>sock := s1, chunk_timestamps := chunk_timestamps c, printed := printed c\<rparr>"
      by (simp add: try_receive_response_def)
    with s1 show ?thesis by blast
  next
    case True
    obtain x s2 where rc: "recv s1 4096 = (x, s2)" by (cases "recv s1 4096")
    from recv_sent [OF rc] s1 have s2: "sent s2 = sent (sock c)" "send_faults s2 = send_faults (sock c)"
      by simp_all
    show ?thesis
    proof (cases x)
      case (Inl e)
      with \<open>chunk_timestamps c \<noteq> []\<close> sel True rc
      have "try_receive_response c =
          c\<lparr>sock := s2, chunk_timestamps := chunk_timestamps c, printed := printed c @ [ReceiveError e]\<rparr>"
        by (simp add: try_receive_response_def)
      with s2 show ?thesis by blast
    next
      case (Inr response)
      show ?thesis
      proof (cases "response = []")
        case True
        with \<open>chunk_timestamps c \<noteq> []\<close> sel \<open>readable\<close> rc Inr
        have "try_receive_response c =
            c\<lparr>sock := s2, chunk_timestamps := chunk_timestamps c, printed := printed c\<rparr>"
          by (simp add: try_receive_response_def)
        with s2 show ?thesis by blast
      next
        case False
        obtain q' pr' where "correlate (str_split newline (str_strip response)) (c\<lparr>sock := s2\<rparr>)
            = c\<lparr>sock := s2\<rparr>\<lparr>chunk_timestamps := q', printed := pr'\<rparr>"
          using correlate_frame by blast
        with \<open>chunk_timestamps c \<noteq> []\<close> sel \<open>readable\<close> rc Inr False
        have "try_receive_response c = c\<lparr>sock := s2, chunk_timestamps := q', printed := pr'\<rparr>"
          by (simp add: try_receive_response_def)
        with s2 show ?thesis by blast
      qed
    qed
  qed
qed

lemma truncate_le:
  assumes "0 < truncate x"
  shows "of_int (truncate x) \<le> x"
proof (cases "0 \<le> x")
  case True
  then show ?thesis by (simp add: truncate_def)
next
  case False
  then have "\<lceil>x\<rceil> \<le> 0" by simp
  with False assms show ?thesis by (simp add: truncate_def)
qed

lemma read_empty: "read n [] = ([], [])"
  by (simp add: read_def)

lemma send_loop_done: "stdout c = [] \<Longrightarrow> send_loop chunk_seconds c = Inr c"
  apply (subst send_loop.simps)
  apply (simp only: Let_def read_empty prod.case if_True refl)
  apply simp
  done

lemma try_receive_response_total: "total_bytes_sent (try_receive_response c) = total_bytes_sent c"
  using try_receive_response_frame [of c] by auto

lemma try_receive_response_sent:
  "sent (sock (try_receive_response c)) = sent (sock c)"
  using try_receive_response_frame [of c] by auto

lemma send_loop_final_slice:
  assumes "stdout c = piece" and "piece \<noteq> []"
    and "int (length piece) < truncate (32000 * chunk_seconds)"
    and "send_faults (sock c) = []"
  shows "\<exists>c'. send_loop chunk_seconds c = Inr c'
          \<and> sent (sock c') = sent (sock c) @
               [piece, replicate (nat (truncate (32000 * chunk_seconds)) - length piece) 0]
          \<and> total_bytes_sent c' = total_bytes_sent c + nat (truncate (32000 * chunk_seconds))
          \<and> stdout c' = []"
proof -
  define n where "n = truncate (32000 * chunk_seconds)"
  have npos: "0 < n" using assms(3) by (simp add: n_def)
  have rd: "read n piece = (piece, [])"
    using assms(3) npos by (simp add: read_def n_def)
  have "rat_of_int (int (length piece)) < rat_of_int n"
    using assms(3) unfolding n_def by (simp only: of_int_less_iff)
  also have "\<dots> \<le> 32000 * chunk_seconds"
    unfolding n_def using npos [unfolded n_def] by (rule truncate_le)
  finally have dur: "rat_of_nat (length piece) < chunk_seconds * 32000"
    by (simp add: mult.commute)
  have lt: "int (length piece) < n" using assms(3) by (simp add: n_def)
  have k: "nat (n - int (length piece)) = nat n - length piece" by simp
  have tot: "length piece + (nat n - length piece) = nat n" using lt by simp
  have "\<exists>c'. send_loop chunk_seconds c = send_loop chunk_seconds c'
          \<and> sent (sock c') = sent (sock c) @ [piece, replicate (nat n - length piece) 0]
          \<and> total_bytes_sent c' = total_bytes_sent c + nat n
          \<and> stdout c' = []"
    apply (subst send_loop.simps [of chunk_seconds c])
    apply (simp add: Let_def n_def [symmetric] assms(1,2,4) rd sendall_def pad_chunk_def dur lt k
        try_receive_response_stdout try_receive_response_sent try_receive_response_total tot)
    apply (rule exI)
    apply (intro conjI)
       apply (rule refl)
      apply (simp_all add: try_receive_response_stdout try_receive_response_sent
        try_receive_response_total tot)
    done
  then obtain c' where c': "send_loop chunk_seconds c = send_loop chunk_seconds c'"
    "sent (sock c') = sent (sock c) @ [piece, replicate (nat n - length piece) 0]"
    "total_bytes_sent c' = total_bytes_sent c + nat n" "stdout c' = []"
    by blast
  from c'(1,4) have "send_loop chunk_seconds c = Inr c'" by (simp add: send_loop_done)
  with c'(2,3,4) show ?thesis unfolding n_def by blast
qed

text \<open>
  Claim C5 (padding of the final chunk). When what is left of the transcoder's output
  is a slice of \<open>k\<close> bytes with \<open>0 < k < chunk_size\<close>, and sending does not raise, the send
  loop transmits the slice and then \<open>chunk_size - k\<close> zero bytes, \<open>chunk_size\<close> bytes in all,
  and ends; when nothing is left it ends at once and transmits nothing.
\<close>

theorem final_slice_padded:
  assumes "stdout c = piece" and "piece \<noteq> []"
    and "int (length piece) < truncate (32000 * chunk_seconds)"
    and "send_faults (sock c) = []"
  shows "(\<exists>c'. send_loop chunk_seconds c = Inr c'
            \<and> sent (sock c') = sent (sock c) @
                 [piece, replicate (nat (truncate (32000 * chunk_seconds)) - length piece) 0]
            \<and> total_bytes_sent c' = total_bytes_sent c + nat (truncate (32000 * chunk_seconds))
            \<and> stdout c' = [])
       \<and> length (piece @ replicate (nat (truncate (32000 * chunk_seconds)) - length piece) (0 :: byte))
            = nat (truncate (32000 * chunk_seconds))
       \<and> (stdout c0 = [] \<longrightarrow> send_loop chunk_seconds c0 = Inr c0)"
proof -
  have "length (piece @ replicate (nat (truncate (32000 * chunk_seconds)) - length piece) (0 :: byte))
            = nat (truncate (32000 * chunk_seconds))"
    using assms(3) by simp
  with send_loop_final_slice [OF assms] send_loop_done [of c0 chunk_seconds]
  show ?thesis by blast
qed

theorem final_slice_padded_witness:
  "int (length [1, 2, 3 :: byte]) < truncate (32000 * (1 / 8000))
   \<and> send_loop (1 / 8000)
     \<lparr>sock = \<lparr>blocking = False, inbound = [Data (''No input'' @ [newline])], sent = [[9, 9, 9, 9]],
         send_faults = [], recv_calls = 0\<rparr>,
      chunk_timestamps = [], clock = 5, printed = [], stdout = [1, 2, 3],
      total_bytes_sent = 4, chunk_count = 1\<rparr>
   = Inr \<lparr>sock = \<lparr>blocking = False, inbound = [], sent = [[9, 9, 9, 9], [1, 2, 3], [0]],
         send_faults = [], recv_calls = 1\<rparr>,
      chunk_timestamps = [], clock = 5, printed = [Response 2 5 5 ''No input''], stdout = [],
      total_bytes_sent = 8, chunk_count = 2\<rparr>"
proof -
  let ?c = "\<lparr>sock = \<lparr>blocking = False, inbound = [Data (''No input'' @ [newline])],
         sent = [[9, 9, 9, 9 :: byte]], send_faults = [], recv_calls = 0\<rparr>,
      chunk_timestamps = [], clock = 5, printed = [], stdout = [1, 2, 3],
      total_bytes_sent = 4, chunk_count = 1\<rparr>"
  have h3: "int (length [1, 2, 3 :: byte]) < truncate (32000 * (1 / 8000))"
    by (simp add: truncate_def)
  have ev: "send_loop (1 / 8000) ?c
      = Inr \<lparr>sock = \<lparr>blocking = False, inbound = [], sent = [[9, 9, 9, 9], [1, 2, 3], [0]],
         send_faults = [], recv_calls = 1\<rparr>,
      chunk_timestamps = [], clock = 5, printed = [Response 2 5 5 ''No input''], stdout = [],
      total_bytes_sent = 8, chunk_count = 2\<rparr>"
    by (simp add: send_loop.simps truncate_def read_def sendall_def pad_chunk_def
          try_receive_response_def select_def recv_def str_strip_def isspace_def newline_def
          Let_def)
  from final_slice_padded [of ?c "[1, 2, 3]" "1 / 8000", OF _ _ h3]
  obtain c' where "send_loop (1 / 8000) ?c = Inr c'"
    "sent (sock c') = sent (sock ?c) @ [[1, 2, 3], replicate (nat (truncate (32000 * (1 / 8000))) - length [1, 2, 3 :: byte]) 0]"
    by auto
  with ev h3 show ?thesis by simp
qed

section \<open>A closed connection on the client\<close>

lemma ticks_left_step:
  assumes "t < e"
  shows "ticks_left e t = Suc (ticks_left e (t + 1 / 10))"
proof -
  define x where "x = (e - t) * 10"
  have eq: "(e - (t + 1 / 10)) * 10 = x - 1"
    by (simp add: x_def algebra_simps)
  have step: "nat k = Suc (nat (k - 1))" if "0 < k" for k :: int
    using that by arith
  have "0 < x" using assms by (simp add: x_def)
  then have "0 < \<lceil>x\<rceil>" by simp
  then have "nat \<lceil>x\<rceil> = Suc (nat (\<lceil>x\<rceil> - 1))" by (rule step)
  moreover have "\<lceil>x - 1\<rceil> = \<lceil>x\<rceil> - 1" by simp
  ultimately have "nat \<lceil>x\<rceil> = Suc (nat \<lceil>x - 1\<rceil>)" by (simp only:)
  then show ?thesis
    unfolding ticks_left_def eq by (simp only: x_def)
qed

lemma ticks_left_zero: "ticks_left e t = 0 \<Longrightarrow> \<not> t < e"
  using ticks_left_step [of t e] by auto

lemma try_receive_response_closed:
  assumes "inbound (sock c) = []" and "chunk_timestamps c \<noteq> []"
  shows "try_receive_response c =
     c\<lparr>sock := (sock c)\<lparr>inbound := [], recv_calls := Suc (recv_calls (sock c))\<rparr>\<rparr>"
  using assms by (simp add: try_receive_response_def select_def recv_def)

text \<open>
  Once the peer has closed, every poll reads zero bytes and changes nothing else: while
  a record is waiting, \<open>wait_for_final_responses\<close> goes on reading until the deadline.
\<close>

lemma wait_loop_closed:
  "inbound (sock c) = [] \<Longrightarrow> chunk_timestamps c \<noteq> [] \<Longrightarrow> ticks_left e (clock c) = n \<Longrightarrow>
   wait_loop e c =
     c\<lparr>sock := (sock c)\<lparr>inbound := [], recv_calls := recv_calls (sock c) + n\<rparr>,
       clock := clock c + of_nat n / 10\<rparr>"
proof (induction n arbitrary: c)
  case 0
  then have "\<not> clock c < e" by (simp add: ticks_left_zero)
  then have "wait_loop e c = c" by (simp add: wait_loop.simps)
  moreover have "(sock c)\<lparr>inbound := [], recv_calls := recv_calls (sock c) + 0\<rparr> = sock c"
    using "0.prems"(1) by (cases "sock c") simp
  ultimately show ?case by simp
next
  case (Suc n)
  have lt: "clock c < e"
  proof (rule ccontr)
    assume "\<not> clock c < e"
    then have "(e - clock c) * 10 \<le> 0" by simp
    then have "ticks_left e (clock c) = 0" by (simp add: ticks_left_def)
    with Suc.prems(3) show False by simp
  qed
  let ?c1 = "sleep (1 / 10) (try_receive_response c)"
  have c1: "?c1 = c\<lparr>sock := (sock c)\<lparr>inbound := [], recv_calls := Suc (recv_calls (sock c))\<rparr>,
      clock := clock c + 1 / 10\<rparr>"
    using try_receive_response_closed [OF Suc.prems(1,2)] by (simp add: sleep_def)
  have t1: "ticks_left e (clock ?c1) = n"
    using ticks_left_step [OF lt] Suc.prems(3) c1 by simp
  have "wait_loop e c = wait_loop e ?c1"
    using lt Suc.prems(2) by (subst wait_loop.simps) simp
  also have "\<dots> = ?c1\<lparr>sock := (sock ?c1)\<lparr>inbound := [], recv_calls := recv_calls (sock ?c1) + n\<rparr>,
       clock := clock ?c1 + of_nat n / 10\<rparr>"
    using Suc.prems(2) c1 by (intro Suc.IH [OF _ _ t1]) simp_all
  also have "\<dots> = c\<lparr>sock := (sock c)\<lparr>inbound := [], recv_calls := recv_calls (sock c) + Suc n\<rparr>,
       clock := clock c + of_nat (Suc n) / 10\<rparr>"
    by (simp add: c1 add_divide_distrib)
  finally show ?case .
qed

text \<open>The loop that nothing calls does stop at a zero-length read, after that one read.\<close>

lemma check_for_additional_responses_closed:
  assumes "inbound (sock c) = []" and "chunk_timestamps c \<noteq> []"
  shows "check_for_additional_responses c =
     c\<lparr>sock := (sock c)\<lparr>inbound := [], recv_calls := Suc (recv_calls (sock c))\<rparr>\<rparr>"
  using assms
  by (subst check_for_additional_responses.simps) (simp add: select_def recv_def)

text \<open>
  Claim C9 (a zero-length read is the normal end) fails on the client. With one chunk
  unanswered and the connection closed by the server, every call of
  \<open>try_receive_response\<close> reads zero bytes and returns as if nothing had happened, so
  \<open>wait_for_final_responses\<close> does not stop: it reads the closed socket every tenth of a
  second until its timeout of 500000000 seconds has passed, five thousand million reads
  in all, before the report of the unanswered chunks is reached.
\<close>

theorem closed_socket_polled_until_timeout:
  "wait_for_final_responses
     \<lparr>sock = \<lparr>blocking = False, inbound = [], sent = [], send_faults = [], recv_calls = 0\<rparr>,
      chunk_timestamps = [(1, 0)], clock = 0, printed = [], stdout = [],
      total_bytes_sent = 64000, chunk_count = 1\<rparr> 500000000
   = \<lparr>sock = \<lparr>blocking = False, inbound = [], sent = [], send_faults = [],
         recv_calls = 5000000000\<rparr>,
      chunk_timestamps = [(1, 0)], clock = 500000000, printed = [], stdout = [],
      total_bytes_sent = 64000, chunk_count = 1\<rparr>"
proof -
  let ?c = "\<lparr>sock = \<lparr>blocking = False, inbound = [], sent = [], send_faults = [], recv_calls = 0\<rparr>,
      chunk_timestamps = [(1, 0)], clock = 0, printed = [], stdout = [],
      total_bytes_sent = 64000, chunk_count = 1\<rparr> :: client"
  have t: "ticks_left (clock ?c + 500000000) (clock ?c) = 5000000000"
    by (simp add: ticks_left_def)
  have "wait_loop (clock ?c + 500000000) ?c =
     ?c\<lparr>sock := (sock ?c)\<lparr>inbound := [], recv_calls := recv_calls (sock ?c) + 5000000000\<rparr>,
       clock := clock ?c + of_nat 5000000000 / 10\<rparr>"
    by (rule wait_loop_closed [OF _ _ t]) simp_all
  then show ?thesis by (simp add: wait_for_final_responses_def)
qed

end
